theory Spec2Isabelle
  imports Main "HOL-Library.Word"
begin

section \<open>Horizon of a job-shop problem (examples/cpp/jobshop_sat.cc)\<close>

text \<open>
  The protocol-buffer messages read by \<open>ComputeHorizon\<close>. An optional wrapper field
  (\<open>has_latest_end\<close>, \<open>has_earliest_start\<close>, \<open>has_transition_time_matrix\<close>) is an
  \<open>option\<close>; a repeated field is a list; \<open>int64\<close> is a 64-bit word read as two's
  complement.
\<close>

type_synonym int64 = "64 word"

record Task =
  duration :: "int64 list"

record Job =
  latest_end :: "int64 option"
  earliest_start :: "int64 option"
  tasks :: "Task list"

record Machine =
  transition_time_matrix :: "int64 list option"

record JsspInputProblem =
  jobs :: "Job list"
  machines :: "Machine list"

definition kint64max :: int64 where
  "kint64max = 0x7FFFFFFFFFFFFFFF"

text \<open>\<open>std::max(a, b)\<close> is \<open>(a < b) ? b : a\<close> and \<open>std::min(a, b)\<close> is
  \<open>(b < a) ? b : a\<close>, on signed 64-bit values.\<close>

definition std_max :: "int64 \<Rightarrow> int64 \<Rightarrow> int64" where
  "std_max a b = (if a <s b then b else a)"

definition std_min :: "int64 \<Rightarrow> int64 \<Rightarrow> int64" where
  "std_min a b = (if b <s a then b else a)"

text \<open>The innermost loop over the alternative durations of one task.\<close>

definition max_duration :: "Task \<Rightarrow> int64" where
  "max_duration task = foldl std_max 0 (duration task)"

text \<open>The loop over the tasks of one job, adding to \<open>sum_of_durations\<close>. The
  additions are those of \<open>int64\<close>; where C++ leaves a signed overflow undefined the
  word addition wraps around.\<close>

definition add_durations :: "int64 \<Rightarrow> Task list \<Rightarrow> int64" where
  "add_durations s ts = foldl (\<lambda>acc task. acc + max_duration task) s ts"

text \<open>The state of the first loop: \<open>sum_of_durations\<close>, \<open>max_latest_end\<close> and
  \<open>max_earliest_start\<close>.\<close>

record horizon_acc =
  sum_of_durations :: int64
  max_latest_end :: int64
  max_earliest_start :: int64

definition job_step :: "horizon_acc \<Rightarrow> Job \<Rightarrow> horizon_acc" where
  "job_step a job =
     \<lparr> sum_of_durations = add_durations (sum_of_durations a) (tasks job),
       max_latest_end =
         (case latest_end job of
            Some v \<Rightarrow> std_max (max_latest_end a) v
          | None \<Rightarrow> kint64max),
       max_earliest_start =
         (case earliest_start job of
            Some v \<Rightarrow> std_max (max_earliest_start a) v
          | None \<Rightarrow> max_earliest_start a) \<rparr>"

definition jobs_loop :: "Job list \<Rightarrow> horizon_acc" where
  "jobs_loop js =
     foldl job_step
       \<lparr> sum_of_durations = 0, max_latest_end = 0, max_earliest_start = 0 \<rparr> js"

text \<open>\<open>matrix.transition_time(k)\<close> reads a repeated field by index. The accessor is
  protocol-buffer code that is not part of the sources, and \<open>ComputeHorizon\<close> does not
  test the index: inside the field the read gives the entry, and what a read outside the
  field gives is the parameter \<open>outside\<close>. The indices are natural numbers here; where
  every matrix holds at least \<open>num_jobs * num_jobs\<close> entries, \<open>i * num_jobs + j\<close> stays
  below the size of a repeated field and so within an \<open>int\<close>.\<close>

type_synonym field_read = "int64 list \<Rightarrow> nat \<Rightarrow> int64"

definition transition_time :: "field_read \<Rightarrow> int64 list \<Rightarrow> nat \<Rightarrow> int64" where
  "transition_time outside m k = (if k < length m then m ! k else outside m k)"

text \<open>The loop over \<open>j\<close> for a fixed row \<open>i\<close>, from \<open>max_transition = 0\<close>.\<close>

fun row_loop :: "field_read \<Rightarrow> int64 list \<Rightarrow> nat \<Rightarrow> nat \<Rightarrow> nat list \<Rightarrow> int64 \<Rightarrow> int64" where
  "row_loop outside m n i [] mt = mt"
| "row_loop outside m n i (j # js) mt =
     row_loop outside m n i js (std_max mt (transition_time outside m (i * n + j)))"

text \<open>The loop over the rows \<open>i\<close> of one matrix, adding to \<open>sum_of_transitions\<close>.\<close>

fun matrix_loop :: "field_read \<Rightarrow> int64 list \<Rightarrow> nat \<Rightarrow> nat list \<Rightarrow> int64 \<Rightarrow> int64" where
  "matrix_loop outside m n [] s = s"
| "matrix_loop outside m n (i # is) s =
     matrix_loop outside m n is (s + row_loop outside m n i [0..<n] 0)"

text \<open>The loop over the machines; a machine without a matrix is skipped.\<close>

fun machines_loop :: "field_read \<Rightarrow> Machine list \<Rightarrow> nat \<Rightarrow> int64 \<Rightarrow> int64" where
  "machines_loop outside [] n s = s"
| "machines_loop outside (mc # mcs) n s =
     (case transition_time_matrix mc of
        None \<Rightarrow> machines_loop outside mcs n s
      | Some m \<Rightarrow> machines_loop outside mcs n (matrix_loop outside m n [0..<n] s))"

definition ComputeHorizon :: "field_read \<Rightarrow> JsspInputProblem \<Rightarrow> int64" where
  "ComputeHorizon outside problem =
     (let a = jobs_loop (jobs problem);
          num_jobs = length (jobs problem);
          sum_of_transitions = machines_loop outside (machines problem) num_jobs 0
      in std_min (max_latest_end a)
           (sum_of_durations a + sum_of_transitions + max_earliest_start a))"


subsection \<open>The horizon as a formula\<close>

text \<open>
  The quantities the horizon is built from, over the mathematical integers. The way a
  maximum is taken is a parameter \<open>mx\<close>: \<open>maximum\<close> is the plain maximum of the listed
  values, \<open>maximum_or_zero\<close> the maximum of the listed values and 0.
\<close>

definition all_tasks :: "JsspInputProblem \<Rightarrow> Task list" where
  "all_tasks p = concat (map tasks (jobs p))"

definition matrices_of :: "Machine list \<Rightarrow> int64 list list" where
  "matrices_of mcs =
     concat (map (\<lambda>mc. case transition_time_matrix mc of None \<Rightarrow> [] | Some m \<Rightarrow> [m]) mcs)"

definition earliest_starts :: "Job list \<Rightarrow> int64 list" where
  "earliest_starts js =
     concat (map (\<lambda>job. case earliest_start job of None \<Rightarrow> [] | Some v \<Rightarrow> [v]) js)"

text \<open>Row \<open>i\<close> of a flat \<open>n \<times> n\<close> matrix: the entries \<open>i * n + j\<close> for \<open>j < n\<close>.\<close>

definition matrix_row :: "nat \<Rightarrow> int64 list \<Rightarrow> nat \<Rightarrow> int list" where
  "matrix_row n m i = map (\<lambda>j. sint (m ! (i * n + j))) [0..<n]"

text \<open>(a): the maximum \<open>latest_end\<close> over the jobs, \<open>kint64max\<close> when some job has none.\<close>

definition latest_bound :: "(int list \<Rightarrow> int) \<Rightarrow> JsspInputProblem \<Rightarrow> int" where
  "latest_bound mx p =
     (if list_ex (\<lambda>job. latest_end job = None) (jobs p) then sint kint64max
      else mx (map (\<lambda>job. sint (the (latest_end job))) (jobs p)))"

text \<open>(b): the sum over all tasks of their maximum alternative duration, plus the sum
  over the machines with a matrix of each row's maximum, plus the maximum
  \<open>earliest_start\<close>.\<close>

definition total_bound :: "(int list \<Rightarrow> int) \<Rightarrow> JsspInputProblem \<Rightarrow> int" where
  "total_bound mx p =
     (let n = length (jobs p) in
      sum_list (map (\<lambda>task. mx (map sint (duration task))) (all_tasks p))
      + sum_list (map (\<lambda>m. sum_list (map (\<lambda>i. mx (matrix_row n m i)) [0..<n]))
                   (matrices_of (machines p)))
      + mx (map sint (earliest_starts (jobs p))))"

definition horizon_by :: "(int list \<Rightarrow> int) \<Rightarrow> JsspInputProblem \<Rightarrow> int" where
  "horizon_by mx p = min (latest_bound mx p) (total_bound mx p)"

definition maximum :: "int list \<Rightarrow> int" where
  "maximum xs = Max (set xs)"

definition maximum_or_zero :: "int list \<Rightarrow> int" where
  "maximum_or_zero xs = Max (insert 0 (set xs))"

text \<open>Every transition matrix holds at least the \<open>num_jobs * num_jobs\<close> entries the loops
  read.\<close>

definition matrices_complete :: "JsspInputProblem \<Rightarrow> bool" where
  "matrices_complete p =
     list_all (\<lambda>m. length (jobs p) * length (jobs p) \<le> length m) (matrices_of (machines p))"

text \<open>One job that must end by \<open>-5\<close>, may start from 1 and has one task of duration 3,
  and one machine with the \<open>1 \<times> 1\<close> matrix \<open>[2]\<close>.\<close>

definition negative_deadline_problem :: JsspInputProblem where
  "negative_deadline_problem =
     \<lparr> jobs = [\<lparr> latest_end = Some (- 5), earliest_start = Some 1,
                 tasks = [\<lparr> duration = [3] \<rparr>] \<rparr>],
       machines = [\<lparr> transition_time_matrix = Some [2] \<rparr>] \<rparr>"

text \<open>Two jobs and two machines: the first job must end by 20, may start from 1 and has
  a task with the alternative durations 3 and 5 and a task of duration 2; the second
  must end by 30 and has one task of duration 4. One machine has the \<open>2 \<times> 2\<close>
  matrix \<open>[0, 1, 2, 0]\<close>, the other has none.\<close>

definition two_job_problem :: JsspInputProblem where
  "two_job_problem =
     \<lparr> jobs = [\<lparr> latest_end = Some 20, earliest_start = Some 1,
                 tasks = [\<lparr> duration = [3, 5] \<rparr>, \<lparr> duration = [2] \<rparr>] \<rparr>,
               \<lparr> latest_end = Some 30, earliest_start = None,
                 tasks = [\<lparr> duration = [4] \<rparr>] \<rparr>],
       machines = [\<lparr> transition_time_matrix = Some [0, 1, 2, 0] \<rparr>,
                   \<lparr> transition_time_matrix = None \<rparr>] \<rparr>"


text \<open>A read outside a field that gives 0, to run \<open>ComputeHorizon\<close> on concrete problems.\<close>

definition zero_outside :: field_read where
  "zero_outside m k = 0"

section \<open>Time-tabling profile (ortools/sat/timetable.h)\<close>

text \<open>
  The header declares the two propagators and the rectangle they build their profiles
  from. A rectangle is a start and a height; its end is the start of the next one, and
  the height holds from the start (inclusive) to the next start (exclusive).
\<close>

record ProfileRectangle =
  start :: int
  height :: int

text \<open>
  Modelled from the spec: the task view and the bound store, which the scheduling layer
  owns (intervals.h and integer.h are not part of the sources). A task has a start
  window, duration bounds, an end window, a bounded demand and a presence proposition;
  \<open>is_present\<close> says that the proposition is proven true.
\<close>

record task_bounds =
  start_min :: int
  start_max :: int
  duration_min :: int
  duration_max :: int
  end_min :: int
  end_max :: int
  demand_min :: int
  demand_max :: int
  is_present :: bool

text \<open>
  Modelled from the spec: the reversible bound store as far as the profile reads and
  writes it. The tasks of the resource, the bounds of the capacity, and the pushes made
  so far, each a new lower bound of the capacity with its reason (the indices of the
  tasks that explain it).
\<close>

record bound_store =
  task_list :: "task_bounds list"
  capacity_min :: int
  capacity_max :: int
  trail :: "(int \<times> nat list) list"

text \<open>
  Modelled from the spec: the mandatory part \<open>[start_max, end_min)\<close> of a task, the
  time range in which it is guaranteed present. A task contributes to the profile when
  it is proven present and its mandatory part is not empty.
\<close>

definition in_profile :: "task_bounds \<Rightarrow> bool" where
  "in_profile task = (is_present task \<and> start_max task < end_min task)"

definition mandatory_at :: "task_bounds \<Rightarrow> int \<Rightarrow> bool" where
  "mandatory_at task t = (in_profile task \<and> start_max task \<le> t \<and> t < end_min task)"

text \<open>
  Modelled from the spec: the total demand of the tasks whose mandatory part contains
  \<open>t\<close>, counted with the currently proven minimum demand of each.
\<close>

definition mandatory_demand :: "task_bounds list \<Rightarrow> int \<Rightarrow> int" where
  "mandatory_demand ts t =
     sum_list (map (\<lambda>task. if mandatory_at task t then demand_min task else 0) ts)"

text \<open>
  Modelled from the spec: the explanation of the profile at a time point, the tasks
  (by index) whose mandatory parts contain it.
\<close>

definition tasks_at :: "task_bounds list \<Rightarrow> int \<Rightarrow> nat list" where
  "tasks_at ts t = filter (\<lambda>i. mandatory_at (ts ! i) t) [0..<length ts]"

text \<open>
  Modelled from the spec: the events of BuildProfile (timetable.cc is not part of the
  sources). Every task with a non-empty mandatory part emits \<open>+demand\<close> at \<open>start_max\<close>
  and \<open>-demand\<close> at \<open>end_min\<close>; an event is a time and a change of height.
\<close>

definition task_events :: "task_bounds \<Rightarrow> (int \<times> int) list" where
  "task_events task =
     (if in_profile task
      then [(start_max task, demand_min task), (end_min task, - demand_min task)]
      else [])"

text \<open>Modelled from the spec: all events of the tasks, sorted by time.\<close>

definition sorted_events :: "task_bounds list \<Rightarrow> (int \<times> int) list" where
  "sorted_events ts = sort_key fst (concat (map task_events ts))"

text \<open>
  Modelled from the spec: all events at equal time are merged into one, before any
  height is compared against the capacity.
\<close>

fun merge_events :: "(int \<times> int) list \<Rightarrow> (int \<times> int) list" where
  "merge_events [] = []"
| "merge_events [e] = [e]"
| "merge_events ((t1, d1) # (t2, d2) # es) =
     (if t1 = t2 then merge_events ((t1, d1 + d2) # es)
      else (t1, d1) # merge_events ((t2, d2) # es))"

text \<open>
  Modelled from the spec: the sweep in time order. It accumulates the height \<open>h\<close> and
  emits one rectangle per distinct resulting height (an event that leaves the height
  unchanged emits none); at a rectangle whose height exceeds the capacity's upper bound
  it stops and reports the time of the conflict.
\<close>

fun sweep :: "int \<Rightarrow> int \<Rightarrow> (int \<times> int) list \<Rightarrow> int + ProfileRectangle list" where
  "sweep cap h [] = Inr []"
| "sweep cap h ((t, d) # es) =
     (if d = 0 then sweep cap h es
      else if cap < h + d then Inl t
      else (case sweep cap (h + d) es of
              Inl c \<Rightarrow> Inl c
            | Inr rs \<Rightarrow> Inr (\<lparr> start = t, height = h + d \<rparr> # rs)))"

text \<open>
  The height of a profile at time \<open>t\<close>, read as the header says: the height of the
  last rectangle that starts at or before \<open>t\<close>, and \<open>h\<close> before the first rectangle.
\<close>

fun height_from :: "int \<Rightarrow> ProfileRectangle list \<Rightarrow> int \<Rightarrow> int" where
  "height_from h [] t = h"
| "height_from h (r # rs) t = (if start r \<le> t then height_from (height r) rs t else h)"

definition height_at :: "ProfileRectangle list \<Rightarrow> int \<Rightarrow> int" where
  "height_at profile t = height_from 0 profile t"

text \<open>
  Modelled from the spec: the highest rectangle of a profile, the first one when
  several are equally high.
\<close>

fun highest :: "ProfileRectangle list \<Rightarrow> ProfileRectangle option" where
  "highest [] = None"
| "highest (r # rs) =
     (case highest rs of
        None \<Rightarrow> Some r
      | Some r' \<Rightarrow> if height r < height r' then Some r' else Some r)"

text \<open>
  Modelled from the spec: IncreaseCapacity raises the capacity's lower bound to
  \<open>new_min\<close> and explains it by the mandatory parts that overlap \<open>time\<close>; a bound that
  is not higher than the current one changes nothing.
\<close>

definition IncreaseCapacity :: "bound_store \<Rightarrow> int \<Rightarrow> int \<Rightarrow> bound_store" where
  "IncreaseCapacity st time new_min =
     (if capacity_min st < new_min
      then st \<lparr> capacity_min := new_min,
                trail := (new_min, tasks_at (task_list st) time) # trail st \<rparr>
      else st)"

text \<open>
  Modelled from the spec: BuildProfile. On a conflict it returns the time of the
  overloaded rectangle and the tasks whose mandatory parts contain it, and pushes no
  bound; otherwise it returns the profile and the store with the capacity's lower bound
  raised to the profile's maximum height.
\<close>

definition BuildProfile ::
  "bound_store \<Rightarrow> (int \<times> nat list) + (ProfileRectangle list \<times> bound_store)" where
  "BuildProfile st =
     (case sweep (capacity_max st) 0 (merge_events (sorted_events (task_list st))) of
        Inl t \<Rightarrow> Inl (t, tasks_at (task_list st) t)
      | Inr profile \<Rightarrow>
          (case highest profile of
             None \<Rightarrow> Inr (profile, st)
           | Some r \<Rightarrow> Inr (profile, IncreaseCapacity st (start r) (height r))))"

text \<open>
  The running sum of a list of events at time \<open>t\<close>: the changes of all events at or
  before \<open>t\<close> added up. It is what the sweep accumulates.
\<close>

definition level :: "(int \<times> int) list \<Rightarrow> int \<Rightarrow> int" where
  "level es t = sum_list (map snd (filter (\<lambda>e. fst e \<le> t) es))"

text \<open>The spec's first scenario: two present tasks of demand 3 and 4, both fixed on
  \<open>[0, 5)\<close>, on a capacity of at most 6.\<close>

definition overloaded_store :: bound_store where
  "overloaded_store =
     \<lparr> task_list =
         [\<lparr> start_min = 0, start_max = 0, duration_min = 5, duration_max = 5,
            end_min = 5, end_max = 5, demand_min = 3, demand_max = 3, is_present = True \<rparr>,
          \<lparr> start_min = 0, start_max = 0, duration_min = 5, duration_max = 5,
            end_min = 5, end_max = 5, demand_min = 4, demand_max = 4, is_present = True \<rparr>],
       capacity_min = 0, capacity_max = 6, trail = [] \<rparr>"

text \<open>Two present tasks that meet at time 4: one of demand 3 surely runs on \<open>[4, 6)\<close>,
  one of demand 2 surely runs on \<open>[0, 4)\<close>, on a capacity of at most 3. Sorted by time,
  the rise by 3 at time 4 comes before the fall by 2 at time 4.\<close>

definition meeting_store :: bound_store where
  "meeting_store =
     \<lparr> task_list =
         [\<lparr> start_min = 2, start_max = 4, duration_min = 4, duration_max = 4,
            end_min = 6, end_max = 8, demand_min = 3, demand_max = 3, is_present = True \<rparr>,
          \<lparr> start_min = 0, start_max = 0, duration_min = 4, duration_max = 4,
            end_min = 4, end_max = 4, demand_min = 2, demand_max = 2, is_present = True \<rparr>],
       capacity_min = 0, capacity_max = 3, trail = [] \<rparr>"

section \<open>Properties of the horizon\<close>

lemma sint_std_max: "sint (std_max a b) = max (sint a) (sint b)"
  by (simp add: std_max_def word_sless_alt max_def)

lemma sint_std_min: "sint (std_min a b) = min (sint a) (sint b)"
  by (simp add: std_min_def word_sless_alt min_def)

lemma Max_insert_max:
  "finite S \<Longrightarrow> Max (insert (max a b) S) = Max (insert a (insert b S))"
  by (cases "S = {}") (auto simp: max.assoc max.commute max.left_commute)

lemma sint_foldl_std_max:
  "sint (foldl std_max a xs) = Max (insert (sint a) (sint ` set xs))"
proof (induction xs arbitrary: a)
  case Nil
  show ?case by simp
next
  case (Cons x xs)
  have "sint (foldl std_max (std_max a x) xs) = Max (insert (max (sint a) (sint x)) (sint ` set xs))"
    by (simp add: Cons.IH sint_std_max)
  also have "\<dots> = Max (insert (sint a) (insert (sint x) (sint ` set xs)))"
    by (rule Max_insert_max) simp
  finally show ?case by simp
qed


lemma word_of_sint [simp]: "word_of_int (sint (w::int64)) = w"
  by simp

lemma max_duration_eq:
  "max_duration task = word_of_int (maximum_or_zero (map sint (duration task)))"
proof -
  have "sint (max_duration task) = maximum_or_zero (map sint (duration task))"
    by (simp add: max_duration_def maximum_or_zero_def sint_foldl_std_max)
  then have "word_of_int (sint (max_duration task)) = (word_of_int (maximum_or_zero (map sint (duration task))) :: int64)"
    by simp
  then show ?thesis by simp
qed

lemma add_durations_eq:
  "add_durations s ts =
     s + word_of_int (sum_list (map (\<lambda>task. maximum_or_zero (map sint (duration task))) ts))"
  unfolding add_durations_def
  by (induction ts arbitrary: s) (simp_all add: max_duration_eq add.assoc)

lemma sint_le_kint64max: "sint (w::int64) \<le> sint kint64max"
proof -
  have "sint w < 2 ^ (LENGTH(64) - 1)" by (rule sint_lt)
  then show ?thesis by (simp add: kint64max_def)
qed

lemma std_max_kint64max [simp]: "std_max kint64max v = kint64max"
  using sint_le_kint64max [of v] by (simp add: std_max_def word_sless_alt)


lemma foldl_job_step_durations:
  "sum_of_durations (foldl job_step a js) =
     sum_of_durations a
     + word_of_int (sum_list (map (\<lambda>task. maximum_or_zero (map sint (duration task)))
                       (concat (map tasks js))))"
  by (induction js arbitrary: a) (simp_all add: job_step_def add_durations_eq add.assoc)

lemma foldl_job_step_earliest:
  "sint (max_earliest_start (foldl job_step a js)) =
     Max (insert (sint (max_earliest_start a)) (sint ` set (earliest_starts js)))"
proof (induction js arbitrary: a)
  case Nil
  show ?case by (simp add: earliest_starts_def)
next
  case (Cons job js)
  show ?case
  proof (cases "earliest_start job")
    case None
    then show ?thesis using Cons.IH [of "job_step a job"]
      by (simp add: job_step_def earliest_starts_def)
  next
    case (Some v)
    have "sint (max_earliest_start (foldl job_step (job_step a job) js)) =
            Max (insert (max (sint (max_earliest_start a)) (sint v)) (sint ` set (earliest_starts js)))"
      using Some by (simp add: Cons.IH job_step_def sint_std_max)
    also have "\<dots> = Max (insert (sint (max_earliest_start a)) (insert (sint v) (sint ` set (earliest_starts js))))"
      by (rule Max_insert_max) simp
    finally show ?thesis using Some by (simp add: earliest_starts_def)
  qed
qed

lemma foldl_job_step_latest_top:
  "max_latest_end a = kint64max \<Longrightarrow> max_latest_end (foldl job_step a js) = kint64max"
  by (induction js arbitrary: a) (simp_all add: job_step_def split: option.splits)

lemma foldl_job_step_latest_none:
  "list_ex (\<lambda>job. latest_end job = None) js \<Longrightarrow>
     max_latest_end (foldl job_step a js) = kint64max"
proof (induction js arbitrary: a)
  case Nil
  then show ?case by simp
next
  case (Cons job js)
  show ?case
  proof (cases "latest_end job")
    case None
    then have "max_latest_end (job_step a job) = kint64max" by (simp add: job_step_def)
    then show ?thesis by (simp add: foldl_job_step_latest_top)
  next
    case (Some v)
    with Cons.prems have "list_ex (\<lambda>job. latest_end job = None) js" by simp
    then show ?thesis by (simp add: Cons.IH)
  qed
qed

lemma foldl_job_step_latest_all:
  "\<not> list_ex (\<lambda>job. latest_end job = None) js \<Longrightarrow>
     sint (max_latest_end (foldl job_step a js)) =
       Max (insert (sint (max_latest_end a)) (set (map (\<lambda>job. sint (the (latest_end job))) js)))"
proof (induction js arbitrary: a)
  case Nil
  show ?case by simp
next
  case (Cons job js)
  from Cons.prems obtain v where v: "latest_end job = Some v" by auto
  from Cons.prems have rest: "\<not> list_ex (\<lambda>job. latest_end job = None) js" by simp
  have "sint (max_latest_end (foldl job_step (job_step a job) js)) =
          Max (insert (max (sint (max_latest_end a)) (sint v)) (set (map (\<lambda>job. sint (the (latest_end job))) js)))"
    using v by (simp add: Cons.IH [OF rest] job_step_def sint_std_max)
  also have "\<dots> = Max (insert (sint (max_latest_end a)) (insert (sint v) (set (map (\<lambda>job. sint (the (latest_end job))) js))))"
    by (rule Max_insert_max) simp
  finally show ?case using v by simp
qed

lemma jobs_loop_latest:
  "max_latest_end (jobs_loop (jobs p)) = word_of_int (latest_bound maximum_or_zero p)"
proof (cases "list_ex (\<lambda>job. latest_end job = None) (jobs p)")
  case True
  then show ?thesis
    by (simp add: jobs_loop_def foldl_job_step_latest_none latest_bound_def)
next
  case False
  have "sint (max_latest_end (jobs_loop (jobs p))) = latest_bound maximum_or_zero p"
    using False unfolding jobs_loop_def latest_bound_def maximum_or_zero_def
    by (simp add: foldl_job_step_latest_all)
  then have "(word_of_int (sint (max_latest_end (jobs_loop (jobs p)))) :: int64) = word_of_int (latest_bound maximum_or_zero p)"
    by simp
  then show ?thesis by simp
qed


lemma row_loop_eq:
  "(\<And>j. j \<in> set js \<Longrightarrow> i * n + j < length m) \<Longrightarrow>
     sint (row_loop outside m n i js mt) =
       Max (insert (sint mt) ((\<lambda>j. sint (m ! (i * n + j))) ` set js))"
proof (induction js arbitrary: mt)
  case Nil
  show ?case by simp
next
  case (Cons j js)
  have inr: "i * n + j < length m" using Cons.prems by simp
  have "sint (row_loop outside m n i js (std_max mt (m ! (i * n + j)))) =
         Max (insert (sint (std_max mt (m ! (i * n + j)))) ((\<lambda>j. sint (m ! (i * n + j))) ` set js))"
    by (rule Cons.IH) (simp add: Cons.prems)
  then have sr: "sint (row_loop outside m n i js (std_max mt (m ! (i * n + j)))) =
         Max (insert (max (sint mt) (sint (m ! (i * n + j)))) ((\<lambda>j. sint (m ! (i * n + j))) ` set js))"
    by (simp add: sint_std_max)
  have "sint (row_loop outside m n i js (std_max mt (m ! (i * n + j)))) =
         Max (insert (sint mt) (insert (sint (m ! (i * n + j))) ((\<lambda>j. sint (m ! (i * n + j))) ` set js)))"
    unfolding sr by (rule Max_insert_max) simp
  then show ?case using inr by (simp add: transition_time_def)
qed

lemma index_in_square: "i < n \<Longrightarrow> j < n \<Longrightarrow> i * n + j < n * (n::nat)"
proof -
  assume i: "i < n" and j: "j < n"
  have "i * n + j < i * n + n" using j by simp
  also have "\<dots> = Suc i * n" by simp
  also have "\<dots> \<le> n * n" using i by (metis Suc_leI mult_le_mono1)
  finally show ?thesis .
qed

lemma row_loop_full:
  assumes "n * n \<le> length m" and "i < n"
  shows "row_loop outside m n i [0..<n] 0 = word_of_int (maximum_or_zero (matrix_row n m i))"
proof -
  have "sint (row_loop outside m n i [0..<n] 0) =
         Max (insert (sint (0::int64)) ((\<lambda>j. sint (m ! (i * n + j))) ` set [0..<n]))"
  proof (rule row_loop_eq)
    fix j assume "j \<in> set [0..<n]"
    then have "i * n + j < n * n" using assms(2) by (simp add: index_in_square)
    then show "i * n + j < length m" using assms(1) by simp
  qed
  then have sr: "sint (row_loop outside m n i [0..<n] 0) = maximum_or_zero (matrix_row n m i)"
    by (simp add: maximum_or_zero_def matrix_row_def)
  have "(word_of_int (sint (row_loop outside m n i [0..<n] 0)) :: int64) =
          word_of_int (maximum_or_zero (matrix_row n m i))"
    by (simp only: sr)
  then show ?thesis by simp
qed

lemma matrix_loop_eq:
  "n * n \<le> length m \<Longrightarrow> (\<And>i. i \<in> set rows \<Longrightarrow> i < n) \<Longrightarrow>
     matrix_loop outside m n rows s =
       s + word_of_int (sum_list (map (\<lambda>i. maximum_or_zero (matrix_row n m i)) rows))"
proof (induction rows arbitrary: s)
  case Nil
  show ?case by simp
next
  case (Cons i rows)
  have "i < n" using Cons.prems(2) by simp
  then have row: "row_loop outside m n i [0..<n] 0 = word_of_int (maximum_or_zero (matrix_row n m i))"
    using Cons.prems(1) by (simp add: row_loop_full)
  show ?case using Cons.prems by (simp add: row Cons.IH add.assoc)
qed

lemma machines_loop_eq:
  "list_all (\<lambda>m. n * n \<le> length m) (matrices_of mcs) \<Longrightarrow>
     machines_loop outside mcs n s =
       s + word_of_int (sum_list (map (\<lambda>m. sum_list (map (\<lambda>i. maximum_or_zero (matrix_row n m i)) [0..<n]))
                                 (matrices_of mcs)))"
proof (induction mcs arbitrary: s)
  case Nil
  show ?case by (simp add: matrices_of_def)
next
  case (Cons mc mcs)
  show ?case
  proof (cases "transition_time_matrix mc")
    case None
    then show ?thesis using Cons.prems Cons.IH [of s] by (simp add: matrices_of_def)
  next
    case (Some m)
    with Cons.prems have sz: "n * n \<le> length m"
      and rest: "list_all (\<lambda>m. n * n \<le> length m) (matrices_of mcs)"
      by (simp_all add: matrices_of_def)
    have ml: "matrix_loop outside m n [0..<n] s =
       s + word_of_int (sum_list (map (\<lambda>i. maximum_or_zero (matrix_row n m i)) [0..<n]))"
      by (rule matrix_loop_eq [OF sz]) simp
    show ?thesis using Some ml Cons.IH [OF rest]
      by (simp add: matrices_of_def add.assoc)
  qed
qed

lemma sint_word_of_int_range:
  "- (2 ^ 63) \<le> x \<Longrightarrow> x < 2 ^ 63 \<Longrightarrow> sint (word_of_int x :: int64) = x"
  by (simp add: sint_sbintrunc' signed_take_bit_int_eq_self)

lemma maximum_or_zero_nonneg: "0 \<le> maximum_or_zero xs"
  by (simp add: maximum_or_zero_def)

lemma maximum_or_zero_sint_le:
  "maximum_or_zero (map sint (ws :: int64 list)) \<le> sint kint64max"
proof -
  have z: "0 \<le> sint kint64max" by (simp add: kint64max_def)
  have "\<And>x. x \<in> insert 0 (set (map sint ws)) \<Longrightarrow> x \<le> sint kint64max"
    using z sint_le_kint64max by auto
  then have "Max (insert 0 (set (map sint ws))) \<le> sint kint64max"
    by (intro Max.boundedI) simp_all
  then show ?thesis by (simp only: maximum_or_zero_def)
qed

lemma sint_kint64max: "sint kint64max = 2 ^ 63 - 1"
  by (simp add: kint64max_def)

lemma latest_bound_range:
  "0 \<le> latest_bound maximum_or_zero p \<and> latest_bound maximum_or_zero p \<le> sint kint64max"
proof (cases "list_ex (\<lambda>job. latest_end job = None) (jobs p)")
  case True
  then show ?thesis by (simp add: latest_bound_def kint64max_def)
next
  case False
  have "map (\<lambda>job. sint (the (latest_end job))) (jobs p) = map sint (map (\<lambda>job. the (latest_end job)) (jobs p))"
    by simp
  then have "maximum_or_zero (map (\<lambda>job. sint (the (latest_end job))) (jobs p)) \<le> sint kint64max"
    by (simp only: maximum_or_zero_sint_le)
  then show ?thesis using False by (simp add: latest_bound_def maximum_or_zero_nonneg)
qed

lemma total_bound_nonneg: "0 \<le> total_bound maximum_or_zero p"
proof -
  let ?n = "length (jobs p)"
  have a: "0 \<le> sum_list (map (\<lambda>task. maximum_or_zero (map sint (duration task))) (all_tasks p))"
    by (rule sum_list_nonneg) (auto simp: maximum_or_zero_nonneg)
  have "\<And>m. 0 \<le> sum_list (map (\<lambda>i. maximum_or_zero (matrix_row ?n m i)) [0..<?n])"
    by (rule sum_list_nonneg) (auto simp: maximum_or_zero_nonneg)
  then have b: "0 \<le> sum_list (map (\<lambda>m. sum_list (map (\<lambda>i. maximum_or_zero (matrix_row ?n m i)) [0..<?n]))
                   (matrices_of (machines p)))"
    by (intro sum_list_nonneg) auto
  have c: "0 \<le> maximum_or_zero (map sint (earliest_starts (jobs p)))"
    by (rule maximum_or_zero_nonneg)
  show ?thesis using a b c by (simp add: total_bound_def Let_def)
qed

lemma ComputeHorizon_word:
  assumes "matrices_complete p"
  shows "ComputeHorizon outside p =
           std_min (word_of_int (latest_bound maximum_or_zero p))
                   (word_of_int (total_bound maximum_or_zero p))"
proof -
  let ?n = "length (jobs p)"
  have ml: "machines_loop outside (machines p) ?n 0 =
       0 + word_of_int (sum_list (map (\<lambda>m. sum_list (map (\<lambda>i. maximum_or_zero (matrix_row ?n m i)) [0..<?n]))
                                 (matrices_of (machines p))))"
    using assms unfolding matrices_complete_def by (rule machines_loop_eq)
  have es: "max_earliest_start (jobs_loop (jobs p)) =
      word_of_int (maximum_or_zero (map sint (earliest_starts (jobs p))))"
  proof -
    have "sint (max_earliest_start (jobs_loop (jobs p))) = maximum_or_zero (map sint (earliest_starts (jobs p)))"
      by (simp add: jobs_loop_def foldl_job_step_earliest maximum_or_zero_def)
    then have "(word_of_int (sint (max_earliest_start (jobs_loop (jobs p)))) :: int64) = word_of_int (maximum_or_zero (map sint (earliest_starts (jobs p))))"
      by (simp only:)
    then show ?thesis by simp
  qed
  have sd: "sum_of_durations (jobs_loop (jobs p)) =
     word_of_int (sum_list (map (\<lambda>task. maximum_or_zero (map sint (duration task))) (all_tasks p)))"
    by (simp add: jobs_loop_def foldl_job_step_durations all_tasks_def)
  show ?thesis
    unfolding ComputeHorizon_def Let_def ml
    by (simp add: jobs_loop_latest es sd total_bound_def Let_def)
qed

text \<open>
  Claim C10, as the code computes it. Every maximum in \<open>ComputeHorizon\<close> starts from 0,
  so it is the maximum of the listed values and 0 (0 for an empty collection); the
  maximum \<open>earliest_start\<close> ranges over the jobs that have one; a row of a matrix is read
  from the flat field at \<open>i * num_jobs + j\<close>. For every problem whose transition
  matrices each hold at least \<open>num_jobs * num_jobs\<close> entries, and whatever a read outside
  a field would give, \<open>ComputeHorizon\<close> returns the minimum of (a) and (b) taken with
  these maxima, the additions being 64-bit; when the sum (b) does not exceed
  \<open>kint64max\<close> it is the minimum of (a) and (b) over the integers.
\<close>

theorem ComputeHorizon_amended:
  "matrices_complete p \<Longrightarrow>
     ComputeHorizon outside p =
       std_min (word_of_int (latest_bound maximum_or_zero p))
               (word_of_int (total_bound maximum_or_zero p))
     \<and> (total_bound maximum_or_zero p \<le> sint kint64max \<longrightarrow>
          sint (ComputeHorizon outside p) = horizon_by maximum_or_zero p)"
proof (intro conjI impI)
  assume mc: "matrices_complete p"
  then show "ComputeHorizon outside p =
           std_min (word_of_int (latest_bound maximum_or_zero p))
                   (word_of_int (total_bound maximum_or_zero p))"
    by (rule ComputeHorizon_word)
next
  assume mc: "matrices_complete p"
    and le: "total_bound maximum_or_zero p \<le> sint kint64max"
  have a: "sint (word_of_int (latest_bound maximum_or_zero p) :: int64) = latest_bound maximum_or_zero p"
    using latest_bound_range [of p] by (intro sint_word_of_int_range) (simp_all add: sint_kint64max)
  have b: "sint (word_of_int (total_bound maximum_or_zero p) :: int64) = total_bound maximum_or_zero p"
    using le total_bound_nonneg [of p] by (intro sint_word_of_int_range) (simp_all add: sint_kint64max)
  show "sint (ComputeHorizon outside p) = horizon_by maximum_or_zero p"
    by (simp add: ComputeHorizon_word [OF mc] sint_std_min a b horizon_by_def)
qed

text \<open>
  At \<open>two_job_problem\<close> the matrix is complete, (a) is 30 and (b) is
  \<open>(5 + 2 + 4) + (1 + 2) + 1 = 15\<close>, and \<open>ComputeHorizon\<close> returns 15.
\<close>

theorem ComputeHorizon_amended_witness:
  "matrices_complete two_job_problem
   \<and> total_bound maximum_or_zero two_job_problem \<le> sint kint64max
   \<and> latest_bound maximum_or_zero two_job_problem = 30
   \<and> total_bound maximum_or_zero two_job_problem = 15
   \<and> sint (ComputeHorizon zero_outside two_job_problem) = 15"
proof -
  have mc: "matrices_complete two_job_problem" by code_simp
  have lb: "latest_bound maximum_or_zero two_job_problem = 30" by code_simp
  have tb: "total_bound maximum_or_zero two_job_problem = 15" by code_simp
  have le: "total_bound maximum_or_zero two_job_problem \<le> sint kint64max"
    by (simp add: tb kint64max_def)
  have "sint (ComputeHorizon zero_outside two_job_problem) =
          horizon_by maximum_or_zero two_job_problem"
    using ComputeHorizon_amended [OF mc, of zero_outside] le by blast
  then show ?thesis using mc le lb tb by (simp add: horizon_by_def)
qed

text \<open>
  Claim C10 as stated takes the plain maximum \<open>latest_end\<close> over the jobs. For the
  problem with one job whose \<open>latest_end\<close> is \<open>-5\<close> that minimum is \<open>-5\<close>, while
  \<open>ComputeHorizon\<close> returns 0, since \<open>max_latest_end\<close> starts from 0. The one matrix of
  the problem is complete, so no read falls outside a field.
\<close>

theorem ComputeHorizon_plain_maximum_counterexample:
  "sint (ComputeHorizon zero_outside negative_deadline_problem) = 0
   \<and> horizon_by maximum negative_deadline_problem = - 5
   \<and> sint (ComputeHorizon zero_outside negative_deadline_problem)
       \<noteq> horizon_by maximum negative_deadline_problem"
  by (simp add: negative_deadline_problem_def ComputeHorizon_def jobs_loop_def job_step_def
      add_durations_def max_duration_def std_max_def std_min_def word_sless_alt
      transition_time_def horizon_by_def latest_bound_def total_bound_def maximum_def
      all_tasks_def matrices_of_def matrix_row_def earliest_starts_def)


section \<open>Properties of the profile\<close>

lemma level_Nil [simp]: "level [] t = 0"
  by (simp add: level_def)

lemma level_Cons [simp]: "level ((t1, d) # es) t = (if t1 \<le> t then d else 0) + level es t"
  by (simp add: level_def)

lemma level_append [simp]: "level (xs @ ys) t = level xs t + level ys t"
  by (simp add: level_def)

lemma level_task_events:
  "level (task_events task) t = (if mandatory_at task t then demand_min task else 0)"
  by (auto simp: task_events_def mandatory_at_def in_profile_def)

lemma level_concat_task_events:
  "level (concat (map task_events ts)) t = mandatory_demand ts t"
  by (induction ts) (simp_all add: mandatory_demand_def level_task_events)

lemma level_insort: "level (insort_key fst e es) t = level (e # es) t"
  by (induction es) (auto simp: level_def)

lemma level_sort: "level (sort_key fst es) t = level es t"
proof (induction es)
  case Nil
  show ?case by simp
next
  case (Cons e es)
  obtain t1 d where e: "e = (t1, d)" by (cases e)
  have "level (sort_key fst (e # es)) t = level (e # sort_key fst es) t"
    by (simp add: level_insort)
  then show ?case using Cons.IH by (simp add: e)
qed

lemma level_sorted_events: "level (sorted_events ts) t = mandatory_demand ts t"
  by (simp add: sorted_events_def level_sort level_concat_task_events)

lemma level_merge_events: "level (merge_events es) t = level es t"
  by (induction es rule: merge_events.induct) auto

lemma sorted_sorted_events: "sorted (map fst (sorted_events ts))"
  by (simp add: sorted_events_def)

lemma merge_events_times: "fst ` set (merge_events es) \<subseteq> fst ` set es"
  by (induction es rule: merge_events.induct) auto

lemma strict_merge_events:
  "sorted (map fst es) \<Longrightarrow> sorted_wrt (<) (map fst (merge_events es))"
proof (induction es rule: merge_events.induct)
  case 1
  show ?case by simp
next
  case (2 e)
  show ?case by simp
next
  case (3 t1 d1 t2 d2 es)
  show ?case
  proof (cases "t1 = t2")
    case True
    then show ?thesis using 3 by simp
  next
    case False
    with "3.prems" have lt: "t1 < t2" by simp
    have srt: "sorted (map fst ((t2, d2) # es))" using "3.prems" by simp
    have rest: "sorted_wrt (<) (map fst (merge_events ((t2, d2) # es)))"
      using "3.IH"(2) [OF False srt] .
    have "\<forall>x \<in> set (map fst (merge_events ((t2, d2) # es))). t1 < x"
    proof
      fix x assume "x \<in> set (map fst (merge_events ((t2, d2) # es)))"
      then have "x \<in> fst ` set ((t2, d2) # es)" using merge_events_times by fastforce
      then have "t2 \<le> x" using srt by auto
      then show "t1 < x" using lt by simp
    qed
    then show ?thesis using False rest by simp
  qed
qed

lemma level_before:
  "(\<And>e. e \<in> set es \<Longrightarrow> t < fst e) \<Longrightarrow> level es t = 0"
proof -
  assume later: "\<And>e. e \<in> set es \<Longrightarrow> t < fst e"
  have "filter (\<lambda>e. fst e \<le> t) es = []"
    using later by (auto simp: filter_empty_conv not_le)
  then show ?thesis by (simp add: level_def)
qed

lemma sweep_conflict_time: "sweep cap h es = Inl c \<Longrightarrow> c \<in> fst ` set es"
  by (induction cap h es rule: sweep.induct) (auto split: if_splits sum.splits)

lemma sweep_profile_height:
  "sorted_wrt (<) (map fst es) \<Longrightarrow> sweep cap h es = Inr rs \<Longrightarrow>
     height_from h rs t = h + level es t"
proof (induction cap h es arbitrary: rs rule: sweep.induct)
  case (1 cap h)
  then show ?case by simp
next
  case (2 cap h t1 d es)
  have later: "\<And>e. e \<in> set es \<Longrightarrow> t1 < fst e" using "2.prems"(1) by auto
  have srt: "sorted_wrt (<) (map fst es)" using "2.prems"(1) by simp
  show ?case
  proof (cases "d = 0")
    case True
    then show ?thesis using 2 srt by simp
  next
    case False
    with "2.prems"(2) have nc: "\<not> cap < h + d" by (auto split: if_splits)
    with False "2.prems"(2) obtain rs' where
      rs': "sweep cap (h + d) es = Inr rs'" and rs: "rs = \<lparr> start = t1, height = h + d \<rparr> # rs'"
      by (auto split: sum.splits)
    have ih: "height_from (h + d) rs' t = h + d + level es t"
      using "2.IH"(2) [OF False nc srt rs'] .
    show ?thesis
    proof (cases "t1 \<le> t")
      case True
      then show ?thesis using ih rs by simp
    next
      case False
      then have "level es t = 0" using later by (intro level_before) force
      then show ?thesis using False rs by simp
    qed
  qed
qed

lemma sweep_conflict_height:
  "sorted_wrt (<) (map fst es) \<Longrightarrow> sweep cap h es = Inl c \<Longrightarrow> cap < h + level es c"
proof (induction cap h es rule: sweep.induct)
  case (1 cap h)
  then show ?case by simp
next
  case (2 cap h t1 d es)
  have later: "\<And>e. e \<in> set es \<Longrightarrow> t1 < fst e" using "2.prems"(1) by auto
  have srt: "sorted_wrt (<) (map fst es)" using "2.prems"(1) by simp
  show ?case
  proof (cases "d = 0")
    case True
    then show ?thesis using 2 srt by simp
  next
    case False
    show ?thesis
    proof (cases "cap < h + d")
      case True
      with False "2.prems"(2) have "c = t1" by simp
      moreover have "level es t1 = 0" using later by (intro level_before) force
      ultimately show ?thesis using True by simp
    next
      case nc: False
      with False "2.prems"(2) have rec: "sweep cap (h + d) es = Inl c"
        by (auto split: sum.splits)
      then have "c \<in> fst ` set es" by (rule sweep_conflict_time)
      then have "t1 \<le> c" using later by force
      moreover have "cap < h + d + level es c" using "2.IH"(2) [OF False nc srt rec] .
      ultimately show ?thesis by simp
    qed
  qed
qed


lemma merged_events_strict:
  "sorted_wrt (<) (map fst (merge_events (sorted_events ts)))"
  by (rule strict_merge_events) (rule sorted_sorted_events)

lemma level_merged_events:
  "level (merge_events (sorted_events ts)) t = mandatory_demand ts t"
  by (simp add: level_merge_events level_sorted_events)

lemma demand_of_tasks_at:
  "sum_list (map (\<lambda>i. demand_min (ts ! i)) (tasks_at ts t)) = mandatory_demand ts t"
proof -
  have "sum_list (map (\<lambda>i. demand_min (ts ! i)) (tasks_at ts t)) =
        sum_list (map (\<lambda>i. if mandatory_at (ts ! i) t then demand_min (ts ! i) else 0) [0..<length ts])"
    unfolding tasks_at_def by (rule sum_list_map_filter') 
  also have "\<dots> = sum_list (map (\<lambda>task. if mandatory_at task t then demand_min task else 0)
                        (map (\<lambda>i. ts ! i) [0..<length ts]))"
    by (simp add: comp_def)
  also have "\<dots> = mandatory_demand ts t"
    by (simp only: map_nth mandatory_demand_def)
  finally show ?thesis .
qed

lemma all_tasks_at: "list_all (\<lambda>i. mandatory_at (ts ! i) t) (tasks_at ts t)"
  by (simp add: tasks_at_def list_all_iff)

text \<open>
  Claim C1. Whenever BuildProfile produces a profile, the height of the profile at every
  time \<open>t\<close> is the total demand of the tasks whose mandatory part
  \<open>[start_max, end_min)\<close> contains \<open>t\<close>. Whenever it reports a conflict instead, the
  tasks of the explanation are exactly those whose mandatory parts contain the reported
  time, and their demands together exceed the capacity's upper bound: since the events
  of one time are merged before the comparison, the overload is one of tasks that do
  coexist.
\<close>

theorem BuildProfile_heights:
  "(case BuildProfile st of
      Inr (profile, st') \<Rightarrow>
        (\<forall>t. height_at profile t = mandatory_demand (task_list st) t)
    | Inl (t, reason) \<Rightarrow>
        reason = tasks_at (task_list st) t
        \<and> list_all (\<lambda>i. mandatory_at (task_list st ! i) t) reason
        \<and> capacity_max st < sum_list (map (\<lambda>i. demand_min (task_list st ! i)) reason))"
proof (cases "sweep (capacity_max st) 0 (merge_events (sorted_events (task_list st)))")
  case (Inl c)
  have "capacity_max st < 0 + level (merge_events (sorted_events (task_list st))) c"
    using merged_events_strict Inl by (rule sweep_conflict_height)
  then have "capacity_max st < mandatory_demand (task_list st) c"
    by (simp add: level_merged_events)
  then show ?thesis
    using Inl by (simp add: BuildProfile_def demand_of_tasks_at all_tasks_at)
next
  case (Inr rs)
  have h: "\<And>t. height_at rs t = mandatory_demand (task_list st) t"
  proof -
    fix t
    have "height_from 0 rs t = 0 + level (merge_events (sorted_events (task_list st))) t"
      using merged_events_strict Inr by (rule sweep_profile_height)
    then show "height_at rs t = mandatory_demand (task_list st) t"
      by (simp add: height_at_def level_merged_events)
  qed
  show ?thesis
    using Inr h by (simp add: BuildProfile_def split: option.splits)
qed

text \<open>
  At \<open>meeting_store\<close> the rise by 3 and the fall by 2 at time 4 are merged: the height
  goes from 2 to 3 and never shows the 5 that adding the rise first would give, so no
  conflict is reported against the capacity of 3. At \<open>overloaded_store\<close> the demands 3
  and 4 coexist from time 0 on a capacity of 6, and the conflict names both tasks.
\<close>

theorem BuildProfile_heights_witness:
  "BuildProfile meeting_store =
     Inr ([\<lparr> start = 0, height = 2 \<rparr>, \<lparr> start = 4, height = 3 \<rparr>, \<lparr> start = 6, height = 0 \<rparr>],
          meeting_store \<lparr> capacity_min := 3, trail := [(3, [0])] \<rparr>)
   \<and> height_at [\<lparr> start = 0, height = 2 \<rparr>, \<lparr> start = 4, height = 3 \<rparr>, \<lparr> start = 6, height = 0 \<rparr>] 4
       = mandatory_demand (task_list meeting_store) 4
   \<and> mandatory_demand (task_list meeting_store) 4 = 3
   \<and> BuildProfile overloaded_store = Inl (0, [0, 1])
   \<and> capacity_max overloaded_store
       < sum_list (map (\<lambda>i. demand_min (task_list overloaded_store ! i)) [0, 1])"
  using BuildProfile_heights [of meeting_store] BuildProfile_heights [of overloaded_store]
  by (simp add: BuildProfile_def meeting_store_def overloaded_store_def sorted_events_def
      task_events_def in_profile_def IncreaseCapacity_def tasks_at_def mandatory_at_def
      height_at_def mandatory_demand_def)

end
